theory Spec2Isabelle
  imports Main "HOL-Library.AList" "HOL-Library.Multiset"
begin

section \<open>Flow-log analyzer: a shallow embedding of \<open>log_analyzer.py\<close>\<close>

text \<open>
  The embedding follows \<open>src/log_analyzer.py\<close> function by function.
  \<^item> A Python \<open>dict\<close> is an association list in insertion order (Python dictionaries
    iterate in insertion order, and the report depends on that order); a real
    dictionary has distinct keys.
  \<^item> An exception is a value of \<open>py_exc\<close>. A block that may raise returns the
    exception, if any, together with the state reached when it was raised, so that the
    \<open>except\<close> clauses of the source see the same partly updated dictionaries.
  \<^item> \<open>open\<close> and \<open>csv.reader\<close> belong to the Python library: a source file is
    given by what opening it yields, either the exception raised by \<open>open\<close> or its
    contents (the lines of a log file, the rows of a CSV file).
  \<^item> \<open>logging\<close> calls append to a list of log records.
  \<^item> A character is a Unicode code point below 256 (Latin-1), the range of the type
    \<open>char\<close>; \<open>str.split\<close> and \<open>str.lower\<close> are modelled on all of that range.
\<close>

subsection \<open>Exceptions, log records, dictionaries\<close>

datatype value_error =
    UnpackMismatch nat            \<comment> \<open>unpacking a row of that many fields into 3 names\<close>
  | UnsupportedLogVersion string  \<comment> \<open>raised by the version check\<close>

datatype py_exc =
    FileNotFoundError
  | PermissionError
  | StopIteration
  | IndexError
  | ValueError value_error

datatype log_record =
    Info_lookup_loaded
  | Error_lookup_not_found
  | Error_lookup_load py_exc
  | Error_unsupported_version string
  | Info_logs_processed
  | Error_log_not_found
  | Error_log_processing py_exc
  | Info_results_saved
  | Error_save_failed py_exc

type_synonym ('k, 'v) dict = "('k \<times> 'v) list"

text \<open>\<open>d.get(k, default)\<close>\<close>

definition dict_get :: "('k, 'v) dict \<Rightarrow> 'k \<Rightarrow> 'v \<Rightarrow> 'v" where
  "dict_get d k dflt = (case map_of d k of None \<Rightarrow> dflt | Some v \<Rightarrow> v)"

text \<open>\<open>d[k] = v\<close>: an existing key keeps its position, a new key goes last.\<close>

definition setitem :: "'k \<Rightarrow> 'v \<Rightarrow> ('k, 'v) dict \<Rightarrow> ('k, 'v) dict" where
  "setitem k v d = AList.update k v d"

text \<open>
  \<open>d[k]\<close> on a \<open>defaultdict(int)\<close>: a missing key is first inserted with
  the value 0. The result is the value read and the dictionary after the read.
\<close>

definition getitem_default :: "'k \<Rightarrow> ('k, int) dict \<Rightarrow> int \<times> ('k, int) dict" where
  "getitem_default k d =
     (case map_of d k of
        Some v \<Rightarrow> (v, d)
      | None \<Rightarrow> (0, setitem k 0 d))"

text \<open>\<open>d[k] += 1\<close> on a \<open>defaultdict(int)\<close>\<close>

definition incr :: "'k \<Rightarrow> ('k, int) dict \<Rightarrow> ('k, int) dict" where
  "incr k d = (case getitem_default k d of (v, d') \<Rightarrow> setitem k (v + 1) d')"

text \<open>\<open>xs[i]\<close> for a constant index \<open>i \<ge> 0\<close>\<close>

definition getitem :: "'a list \<Rightarrow> nat \<Rightarrow> py_exc + 'a" where
  "getitem xs i = (if i < length xs then Inr (xs ! i) else Inl IndexError)"

subsection \<open>Strings\<close>

text \<open>
  \<open>str.isspace\<close> on one character: tab, line feed, vertical tab, form feed, carriage
  return, the four separators U+001C to U+001F, space, next line (U+0085) and no-break
  space (U+00A0).
\<close>

definition isspace :: "char \<Rightarrow> bool" where
  "isspace c \<longleftrightarrow>
     c \<in> set [CHR 0x09, CHR 0x0A, CHR 0x0B, CHR 0x0C, CHR 0x0D,
               CHR 0x1C, CHR 0x1D, CHR 0x1E, CHR 0x1F, CHR 0x20,
               CHR 0x85, CHR 0xA0]"

text \<open>
  \<open>s.split()\<close>: the maximal runs of non-whitespace characters, in order.
  The first argument is the field being read.
\<close>

fun split_from :: "string \<Rightarrow> string \<Rightarrow> string list" where
  "split_from w [] = (if w = [] then [] else [w])"
| "split_from w (c # cs) =
     (if isspace c then (if w = [] then split_from [] cs else w # split_from [] cs)
      else split_from (w @ [c]) cs)"

definition str_split :: "string \<Rightarrow> string list" where
  "str_split s = split_from [] s"

text \<open>
  \<open>str.lower\<close> on one character: the capitals \<open>A\<close> to \<open>Z\<close> and the Latin-1
  capitals U+00C0 to U+00DE (all but the multiplication sign U+00D7) go to the letter
  32 code points higher; every other character is unchanged.
\<close>

definition upper_letters :: "char list" where
  "upper_letters =
     ''ABCDEFGHIJKLMNOPQRSTUVWXYZ''
     @ [CHR 0xC0, CHR 0xC1, CHR 0xC2, CHR 0xC3, CHR 0xC4, CHR 0xC5, CHR 0xC6, CHR 0xC7,
        CHR 0xC8, CHR 0xC9, CHR 0xCA, CHR 0xCB, CHR 0xCC, CHR 0xCD, CHR 0xCE, CHR 0xCF,
        CHR 0xD0, CHR 0xD1, CHR 0xD2, CHR 0xD3, CHR 0xD4, CHR 0xD5, CHR 0xD6,
        CHR 0xD8, CHR 0xD9, CHR 0xDA, CHR 0xDB, CHR 0xDC, CHR 0xDD, CHR 0xDE]"

definition lower_letters :: "char list" where
  "lower_letters =
     ''abcdefghijklmnopqrstuvwxyz''
     @ [CHR 0xE0, CHR 0xE1, CHR 0xE2, CHR 0xE3, CHR 0xE4, CHR 0xE5, CHR 0xE6, CHR 0xE7,
        CHR 0xE8, CHR 0xE9, CHR 0xEA, CHR 0xEB, CHR 0xEC, CHR 0xED, CHR 0xEE, CHR 0xEF,
        CHR 0xF0, CHR 0xF1, CHR 0xF2, CHR 0xF3, CHR 0xF4, CHR 0xF5, CHR 0xF6,
        CHR 0xF8, CHR 0xF9, CHR 0xFA, CHR 0xFB, CHR 0xFC, CHR 0xFD, CHR 0xFE]"

definition lower_char :: "char \<Rightarrow> char" where
  "lower_char c =
     (case map_of (zip upper_letters lower_letters) c of
        Some l \<Rightarrow> l
      | None \<Rightarrow> c)"

definition lower :: "string \<Rightarrow> string" where
  "lower s = map lower_char s"

subsection \<open>Protocol table\<close>

definition protocol_map :: "(string, string) dict" where
  "protocol_map =
     [(''1'', ''icmp''),
      (''2'', ''igmp''),
      (''6'', ''tcp''),
      (''17'', ''udp''),
      (''41'', ''ipv6-encapsulation''),
      (''47'', ''gre''),
      (''50'', ''esp''),
      (''51'', ''ah''),
      (''58'', ''icmpv6''),
      (''89'', ''ospf''),
      (''132'', ''sctp'')]"

text \<open>\<open>protocol_map.get(protocol_code, "unknown")\<close>, the resolver of the parser.\<close>

definition resolve :: "string \<Rightarrow> string" where
  "resolve protocol_code = dict_get protocol_map protocol_code ''unknown''"

subsection \<open>\<open>load_lookup_table\<close>\<close>

type_synonym lookup_table = "(string \<times> string, string) dict"

text \<open>
  The loop \<open>for dstport, protocol, tag in reader\<close>: a row that does not have exactly
  three fields raises \<open>ValueError\<close> at the unpacking, and the table keeps the rows
  stored before it.
\<close>

fun load_rows :: "lookup_table \<Rightarrow> string list list \<Rightarrow> py_exc option \<times> lookup_table" where
  "load_rows tbl [] = (None, tbl)"
| "load_rows tbl (row # rows) =
     (case row of
        [dstport, protocol, tag] \<Rightarrow> load_rows (setitem (dstport, lower protocol) tag tbl) rows
      | _ \<Rightarrow> (Some (ValueError (UnpackMismatch (length row))), tbl))"

text \<open>
  The body of the \<open>try\<close>: \<open>open\<close>, \<open>next(reader)\<close> for the header (which raises
  \<open>StopIteration\<close> on a source with no row), the loop, and the final \<open>logging.info\<close>.
\<close>

definition load_body ::
  "py_exc + string list list \<Rightarrow> py_exc option \<times> lookup_table \<times> log_record list" where
  "load_body file =
     (case file of
        Inl e \<Rightarrow> (Some e, [], [])
      | Inr [] \<Rightarrow> (Some StopIteration, [], [])
      | Inr (header # rows) \<Rightarrow>
          (case load_rows [] rows of
             (Some e, tbl) \<Rightarrow> (Some e, tbl, [])
           | (None, tbl) \<Rightarrow> (None, tbl, [Info_lookup_loaded])))"

text \<open>
  Both \<open>except\<close> clauses log and fall through to \<open>return lookup_table\<close>. The result
  is a sum so that an exception leaving the function would be \<open>Inl\<close>.
\<close>

definition load_lookup_table ::
  "py_exc + string list list \<Rightarrow> (py_exc + lookup_table) \<times> log_record list" where
  "load_lookup_table file =
     (case load_body file of
        (None, tbl, lg) \<Rightarrow> (Inr tbl, lg)
      | (Some FileNotFoundError, tbl, lg) \<Rightarrow> (Inr tbl, lg @ [Error_lookup_not_found])
      | (Some e, tbl, lg) \<Rightarrow> (Inr tbl, lg @ [Error_lookup_load e]))"

subsection \<open>\<open>parse_flow_logs\<close>\<close>

type_synonym tag_counts = "(string, int) dict"
type_synonym port_protocol_counts = "(string \<times> string, int) dict"
type_synonym parse_state = "tag_counts \<times> port_protocol_counts \<times> log_record list"

text \<open>The body of the \<open>for\<close> loop, for one line.\<close>

fun process_line ::
  "lookup_table \<Rightarrow> string \<Rightarrow> parse_state \<Rightarrow> py_exc option \<times> parse_state" where
  "process_line lookup line (tc, ppc, lg) =
     (let fields = str_split line in
        (case getitem fields 0 of
           Inl e \<Rightarrow> (Some e, (tc, ppc, lg))
         | Inr version \<Rightarrow>
             (if version \<noteq> ''2''
              then (Some (ValueError (UnsupportedLogVersion version)),
                    (tc, ppc, lg @ [Error_unsupported_version version]))
              else
                (case getitem fields 5 of
                   Inl e \<Rightarrow> (Some e, (tc, ppc, lg))
                 | Inr dstport \<Rightarrow>
                     (case getitem fields 7 of
                        Inl e \<Rightarrow> (Some e, (tc, ppc, lg))
                      | Inr protocol_code \<Rightarrow>
                          (let protocol = resolve protocol_code;
                               tag = dict_get lookup (dstport, protocol) ''Untagged''
                           in (None, (incr tag tc, incr (dstport, protocol) ppc, lg))))))))"

fun parse_lines ::
  "lookup_table \<Rightarrow> string list \<Rightarrow> parse_state \<Rightarrow> py_exc option \<times> parse_state" where
  "parse_lines lookup [] st = (None, st)"
| "parse_lines lookup (line # rest) st =
     (case process_line lookup line st of
        (Some e, st') \<Rightarrow> (Some e, st')
      | (None, st') \<Rightarrow> parse_lines lookup rest st')"

text \<open>The body of the \<open>try\<close>, started on the two empty dictionaries.\<close>

definition parse_body ::
  "py_exc + string list \<Rightarrow> lookup_table \<Rightarrow> py_exc option \<times> parse_state" where
  "parse_body file lookup =
     (case file of
        Inl e \<Rightarrow> (Some e, ([], [], []))
      | Inr lines \<Rightarrow>
          (case parse_lines lookup lines ([], [], []) of
             (Some e, st) \<Rightarrow> (Some e, st)
           | (None, (tc, ppc, lg)) \<Rightarrow> (None, (tc, ppc, lg @ [Info_logs_processed]))))"

text \<open>
  \<open>except FileNotFoundError\<close> logs and falls through to the \<open>return\<close>;
  \<open>except Exception\<close> logs and raises again.
\<close>

definition parse_flow_logs ::
  "py_exc + string list \<Rightarrow> lookup_table \<Rightarrow>
     (py_exc + tag_counts \<times> port_protocol_counts) \<times> log_record list" where
  "parse_flow_logs file lookup =
     (case parse_body file lookup of
        (None, (tc, ppc, lg)) \<Rightarrow> (Inr (tc, ppc), lg)
      | (Some FileNotFoundError, (tc, ppc, lg)) \<Rightarrow> (Inr (tc, ppc), lg @ [Error_log_not_found])
      | (Some e, (tc, ppc, lg)) \<Rightarrow> (Inl e, lg @ [Error_log_processing e]))"

subsection \<open>\<open>save_results\<close>\<close>

text \<open>A cell handed to \<open>csv.writer\<close>: a string or an integer.\<close>

datatype cell = Str string | Num int

text \<open>
  \<open>sorted(items, key=lambda x: x[1], reverse=True)\<close>: Python's sort is stable, and
  with \<open>reverse=True\<close> it reverses the list, sorts it, and reverses the result.
\<close>

definition sorted_reverse :: "('a \<Rightarrow> int) \<Rightarrow> 'a list \<Rightarrow> 'a list" where
  "sorted_reverse key xs = rev (sort_key key (rev xs))"

definition sorted_tags :: "tag_counts \<Rightarrow> (string \<times> int) list" where
  "sorted_tags tc = sorted_reverse snd (filter (\<lambda>(tag, count). tag \<noteq> ''Untagged'') tc)"

definition untagged_count :: "tag_counts \<Rightarrow> int" where
  "untagged_count tc = dict_get tc ''Untagged'' 0"

text \<open>The rows written inside the \<open>with\<close> block, one list element per \<open>writerow\<close>.\<close>

definition report_rows :: "tag_counts \<Rightarrow> port_protocol_counts \<Rightarrow> cell list list" where
  "report_rows tc ppc =
     [[Str ''Tag Counts''], [Str ''Tag'', Str ''Count'']]
     @ map (\<lambda>(tag, count). [Str tag, Num count]) (sorted_tags tc)
     @ (if untagged_count tc > 0 then [[Str ''Untagged'', Num (untagged_count tc)]] else [])
     @ [[], [Str ''Port/Protocol Combination Counts''],
        [Str ''Port'', Str ''Protocol'', Str ''Count'']]
     @ map (\<lambda>((dstport, protocol), count). [Str dstport, Str protocol, Num count]) ppc"

text \<open>
  The output file is given by what opening it for writing yields. The result is the
  rows written, if any, and the log; every exception is logged and swallowed.
\<close>

definition save_results ::
  "tag_counts \<Rightarrow> port_protocol_counts \<Rightarrow> py_exc + unit \<Rightarrow>
     cell list list option \<times> log_record list" where
  "save_results tc ppc out =
     (case out of
        Inl e \<Rightarrow> (None, [Error_save_failed e])
      | Inr _ \<Rightarrow> (Some (report_rows tc ppc), [Info_results_saved]))"

subsection \<open>Vocabulary of the properties\<close>

text \<open>
  A line the parser accepts: its first field is the version token and the fields
  read by index (0, 5 and 7) exist.
\<close>

definition valid_line :: "string \<Rightarrow> bool" where
  "valid_line line \<longleftrightarrow> 8 \<le> length (str_split line) \<and> str_split line ! 0 = ''2''"

text \<open>The (destination port, protocol name) pair and the tag of an accepted line.\<close>

definition record_key :: "string \<Rightarrow> string \<times> string" where
  "record_key line = (str_split line ! 5, resolve (str_split line ! 7))"

definition record_tag :: "lookup_table \<Rightarrow> string \<Rightarrow> string" where
  "record_tag lookup line = dict_get lookup (record_key line) ''Untagged''"

text \<open>The exception raised by the loop body on a line that is not accepted.\<close>

definition line_error :: "string \<Rightarrow> py_exc" where
  "line_error line =
     (case str_split line of
        [] \<Rightarrow> IndexError
      | version # _ \<Rightarrow>
          if version \<noteq> ''2'' then ValueError (UnsupportedLogVersion version) else IndexError)"

text \<open>
  The tag block of a report: the rows after the caption row, up to the blank
  separator row.
\<close>

definition tag_block :: "cell list list \<Rightarrow> cell list list" where
  "tag_block rows = takeWhile (\<lambda>row. row \<noteq> []) (drop 1 rows)"

section \<open>Properties\<close>

subsection \<open>The loop body and the loop\<close>

lemma process_line_valid:
  "valid_line line \<Longrightarrow>
   process_line lookup line (tc, ppc, lg) =
     (None, (incr (record_tag lookup line) tc, incr (record_key line) ppc, lg))"
  by (auto simp: valid_line_def record_tag_def record_key_def getitem_def Let_def)

declare process_line.simps [simp del]

lemma process_line_invalid:
  "\<not> valid_line line \<Longrightarrow>
   \<exists>lg'. process_line lookup line (tc, ppc, lg) = (Some (line_error line), (tc, ppc, lg'))"
  by (cases "str_split line")
     (auto simp: valid_line_def line_error_def getitem_def Let_def process_line.simps)

lemma process_line_None:
  assumes "process_line lookup line (tc, ppc, lg) = (None, (tc', ppc', lg'))"
  shows "valid_line line \<and> tc' = incr (record_tag lookup line) tc \<and>
         ppc' = incr (record_key line) ppc \<and> lg' = lg"
proof (cases "valid_line line")
  case True
  with assms show ?thesis by (simp add: process_line_valid)
next
  case False
  from process_line_invalid [OF False, of lookup tc ppc lg] assms show ?thesis by auto
qed

lemma line_error_not_fnf: "line_error line \<noteq> FileNotFoundError"
  by (simp add: line_error_def split: list.splits)

lemma parse_lines_valid:
  "\<forall>l\<in>set ls. valid_line l \<Longrightarrow>
   parse_lines lookup ls (tc, ppc, lg) =
     (None, (foldl (\<lambda>d l. incr (record_tag lookup l) d) tc ls,
             foldl (\<lambda>d l. incr (record_key l) d) ppc ls, lg))"
  by (induction ls arbitrary: tc ppc) (simp_all add: process_line_valid)

lemma parse_lines_first_invalid:
  assumes "\<forall>l\<in>set pre. valid_line l" and "\<not> valid_line bad"
  shows "\<exists>st'. parse_lines lookup (pre @ bad # post) (tc, ppc, lg) = (Some (line_error bad), st')"
  using assms(1)
proof (induction pre arbitrary: tc ppc)
  case Nil
  from process_line_invalid [OF assms(2), of lookup tc ppc lg] show ?case by auto
next
  case (Cons l pre)
  then show ?case by (simp add: process_line_valid)
qed

lemma split_first_invalid:
  assumes "\<exists>l\<in>set ls. \<not> valid_line l"
  shows "\<exists>pre bad post. ls = pre @ bad # post \<and> (\<forall>l\<in>set pre. valid_line l) \<and> \<not> valid_line bad"
  using assms split_list_first_prop [of ls "\<lambda>l. \<not> valid_line l"] by auto

lemma parse_lines_None_valid:
  "parse_lines lookup ls st = (None, st') \<Longrightarrow> \<forall>l\<in>set ls. valid_line l"
proof (rule ccontr)
  assume p: "parse_lines lookup ls st = (None, st')" and "\<not> (\<forall>l\<in>set ls. valid_line l)"
  then obtain pre bad post where "ls = pre @ bad # post" "\<forall>l\<in>set pre. valid_line l" "\<not> valid_line bad"
    using split_first_invalid [of ls] by blast
  with parse_lines_first_invalid [of pre bad lookup post "fst st" "fst (snd st)" "snd (snd st)"] p
  show False by simp
qed

lemma parse_flow_logs_valid:
  "\<forall>l\<in>set ls. valid_line l \<Longrightarrow>
   parse_flow_logs (Inr ls) lookup =
     (Inr (foldl (\<lambda>d l. incr (record_tag lookup l) d) [] ls,
           foldl (\<lambda>d l. incr (record_key l) d) [] ls), [Info_logs_processed])"
  by (simp add: parse_flow_logs_def parse_body_def parse_lines_valid)

lemma parse_flow_logs_first_invalid:
  assumes "\<forall>l\<in>set pre. valid_line l" and "\<not> valid_line bad"
  shows "fst (parse_flow_logs (Inr (pre @ bad # post)) lookup) = Inl (line_error bad)"
proof -
  obtain st' where "parse_lines lookup (pre @ bad # post) ([], [], []) = (Some (line_error bad), st')"
    using parse_lines_first_invalid [OF assms] by blast
  then show ?thesis
    using line_error_not_fnf [of bad]
    by (cases "line_error bad"; cases st'; simp add: parse_flow_logs_def parse_body_def split: prod.splits)
qed

lemma parse_flow_logs_invalid:
  assumes "\<exists>l\<in>set ls. \<not> valid_line l"
  shows "\<exists>e. fst (parse_flow_logs (Inr ls) lookup) = Inl e"
  using split_first_invalid [OF assms] parse_flow_logs_first_invalid by blast

lemma parse_flow_logs_Inr_valid:
  assumes "fst (parse_flow_logs (Inr ls) lookup) = Inr r"
  shows "\<forall>l\<in>set ls. valid_line l"
  using assms parse_flow_logs_invalid [of ls lookup] by auto

subsection \<open>Counters\<close>

lemma sum_update:
  "sum_list (map snd (AList.update k v d)) = sum_list (map snd d) - dict_get d k 0 + (v::int)"
  by (induction d) (auto simp: dict_get_def)

lemma incr_eq: "incr k d = AList.update k (dict_get d k 0 + 1) d"
  by (simp add: incr_def getitem_default_def setitem_def dict_get_def split: option.splits)

lemma dict_get_incr: "dict_get (incr k d) k' 0 = dict_get d k' 0 + (if k' = k then 1 else 0)"
  by (simp add: incr_eq dict_get_def update_conv')

lemma sum_incr: "sum_list (map snd (incr k d)) = sum_list (map snd d) + 1"
  by (simp add: incr_eq sum_update)

lemma distinct_incr: "distinct (map fst d) \<Longrightarrow> distinct (map fst (incr k d))"
  by (simp add: incr_eq distinct_update)


lemma sum_foldl_incr:
  "sum_list (map snd (foldl (\<lambda>d l. incr (f l) d) d0 ls)) = sum_list (map snd d0) + int (length ls)"
  by (induction ls arbitrary: d0) (auto simp: sum_incr)

lemma distinct_foldl_incr:
  "distinct (map fst d0) \<Longrightarrow> distinct (map fst (foldl (\<lambda>d l. incr (f l) d) d0 ls))"
  by (induction ls arbitrary: d0) (auto simp: distinct_incr)

lemma parse_lines_append:
  "parse_lines lookup (xs @ ys) st =
     (case parse_lines lookup xs st of
        (Some e, st') \<Rightarrow> (Some e, st')
      | (None, st') \<Rightarrow> parse_lines lookup ys st')"
  by (induction xs arbitrary: st) (auto split: prod.splits option.splits)

lemma process_line_mono:
  assumes "process_line lookup line (tc, ppc, lg) = (exc, (tc', ppc', lg'))"
  shows "dict_get tc t 0 \<le> dict_get tc' t 0 \<and> dict_get ppc k 0 \<le> dict_get ppc' k 0"
proof (cases "valid_line line")
  case True
  with assms show ?thesis by (auto simp: process_line_valid dict_get_incr)
next
  case False
  from process_line_invalid [OF False, of lookup tc ppc lg] assms show ?thesis by auto
qed

lemma parse_lines_mono:
  "parse_lines lookup ls (tc, ppc, lg) = (exc, (tc', ppc', lg')) \<Longrightarrow>
   dict_get tc t 0 \<le> dict_get tc' t 0 \<and> dict_get ppc k 0 \<le> dict_get ppc' k 0"
proof (induction ls arbitrary: tc ppc lg)
  case Nil
  then show ?case by simp
next
  case (Cons l ls)
  obtain e1 tc1 ppc1 lg1 where p: "process_line lookup l (tc, ppc, lg) = (e1, (tc1, ppc1, lg1))"
    by (metis prod_cases4)
  note m = process_line_mono [OF p, of t k]
  show ?case
  proof (cases e1)
    case None
    with Cons.prems p have "parse_lines lookup ls (tc1, ppc1, lg1) = (exc, (tc', ppc', lg'))" by simp
    from Cons.IH [OF this] m show ?thesis by linarith
  next
    case (Some e)
    with Cons.prems p m show ?thesis by simp
  qed
qed

subsection \<open>Concrete inputs\<close>

lemma valid_line_ex1: "valid_line ''2 123456789012 eni-a1b2 10.0.1.5 198.51.100.7 80 49152 6 10 840 1620140761 1620140821 ACCEPT OK''"
  by (simp add: valid_line_def str_split_def isspace_def)

lemma str_split_ex5: "str_split ''2 a b c d 80 e 6 x y''
   = [''2'', ''a'', ''b'', ''c'', ''d'', ''80'', ''e'', ''6'', ''x'', ''y'']"
  by (simp add: str_split_def isspace_def)

lemmas lower_defs = lower_def lower_char_def upper_letters_def lower_letters_def

lemmas eval_defs = process_line.simps getitem_def resolve_def protocol_map_def dict_get_def
  incr_def getitem_default_def setitem_def Let_def

lemma parse_lines_ex1:
  "parse_lines [((''80'', ''tcp''), ''web'')] [''2 a b c d 80 e 6 x y''] ([], [], [])
     = (None, ([(''web'', 1)], [((''80'', ''tcp''), 1)], []))"
  by (simp add: eval_defs str_split_ex5)

lemma str_split_ex7:
  "str_split ''2 - - - - 80 - 6'' = [''2'', ''-'', ''-'', ''-'', ''-'', ''80'', ''-'', ''6'']"
  by (simp add: str_split_def isspace_def)

lemma sorted_tags_ex1:
  "sorted_tags [(''Untagged'', 7), (''ssh'', 3), (''web'', 5), (''x'', 3)]
     = [(''web'', 5), (''ssh'', 3), (''x'', 3)]"
  by (simp add: sorted_tags_def sorted_reverse_def sort_key_def)

lemma sorted_tags_ex2:
  "sorted_tags [(''ssh'', 3), (''Untagged'', 0), (''web'', 5)] = [(''web'', 5), (''ssh'', 3)]"
  by (simp add: sorted_tags_def sorted_reverse_def sort_key_def)

lemma untagged_count_ex1:
  "untagged_count [(''Untagged'', 7), (''ssh'', 3), (''web'', 5), (''x'', 3)] = 7"
  by (simp add: untagged_count_def dict_get_def)

lemma untagged_count_ex2:
  "untagged_count [(''ssh'', 3), (''Untagged'', 0), (''web'', 5)] = 0"
  by (simp add: untagged_count_def dict_get_def)

text \<open>
  Lines whose fields are separated by other whitespace than single spaces: no-break
  space (U+00A0), next line (U+0085), tabs, separators, runs, leading and trailing
  whitespace.
\<close>

lemma str_split_nbsp_a:
  "str_split (''2'' @ [CHR 0xA0] @ ''a b c d 80 e 6 x'')
     = [''2'', ''a'', ''b'', ''c'', ''d'', ''80'', ''e'', ''6'', ''x'']"
  by (simp add: str_split_def isspace_def)

lemma str_split_nbsp_b:
  "str_split (''2 a'' @ [CHR 0xA0] @ ''b c d e 80 f 6 g'')
     = [''2'', ''a'', ''b'', ''c'', ''d'', ''e'', ''80'', ''f'', ''6'', ''g'']"
  by (simp add: str_split_def isspace_def)

lemma str_split_nbsp_c:
  "str_split (''2 a b c d 80 e'' @ [CHR 0xA0] @ ''6'')
     = [''2'', ''a'', ''b'', ''c'', ''d'', ''80'', ''e'', ''6'']"
  by (simp add: str_split_def isspace_def)

lemma str_split_nbsp_d:
  "str_split (''2 a b c d 80 e '' @ [CHR 0xA0])
     = [''2'', ''a'', ''b'', ''c'', ''d'', ''80'', ''e'']"
  by (simp add: str_split_def isspace_def)

lemma str_split_all_whitespace:
  "str_split ([CHR 0x09] @ '' 2  123456789012'' @ [CHR 0x09] @ ''eni-a1b2 '' @ [CHR 0xA0]
       @ ''10.0.1.5'' @ [CHR 0x85] @ ''198.51.100.7'' @ [CHR 0x0B, CHR 0x0C] @ ''80''
       @ [CHR 0x1C] @ ''49152'' @ [CHR 0x1F, CHR 0x1E, CHR 0x1D]
       @ ''6 10 840 1620140761 1620140821 ACCEPT OK extra'' @ [CHR 0x0D, CHR 0x0A])
     = [''2'', ''123456789012'', ''eni-a1b2'', ''10.0.1.5'', ''198.51.100.7'', ''80'', ''49152'', ''6'',
        ''10'', ''840'', ''1620140761'', ''1620140821'', ''ACCEPT'', ''OK'', ''extra'']"
  by (simp add: str_split_def isspace_def)

lemma str_split_bad_version:
  "str_split ([CHR 0x09] @ '' 3  x'' @ [CHR 0x0A]) = [''3'', ''x'']"
  by (simp add: str_split_def isspace_def)

lemma str_split_blank:
  "str_split ('' '' @ [CHR 0x09, CHR 0xA0, CHR 0x0A]) = []"
  by (simp add: str_split_def isspace_def)

lemma str_split_not_whitespace:
  "str_split (''a'' @ [CHR 0x08, CHR 0x1B, CHR 0x7F, CHR 0xA1] @ ''b_c-d'')
     = [''a'' @ [CHR 0x08, CHR 0x1B, CHR 0x7F, CHR 0xA1] @ ''b_c-d'']"
  by (simp add: str_split_def isspace_def)

lemma valid_line_nbsp_a: "valid_line (''2'' @ [CHR 0xA0] @ ''a b c d 80 e 6 x'')"
  unfolding valid_line_def str_split_nbsp_a by simp

lemma valid_line_nbsp_c: "valid_line (''2 a b c d 80 e'' @ [CHR 0xA0] @ ''6'')"
  unfolding valid_line_def str_split_nbsp_c by simp

lemma parse_nbsp_a:
  "parse_flow_logs (Inr [''2'' @ [CHR 0xA0] @ ''a b c d 80 e 6 x'']) [((''80'', ''tcp''), ''web'')]
     = (Inr ([(''web'', 1)], [((''80'', ''tcp''), 1)]), [Info_logs_processed])"
  by (simp add: parse_flow_logs_def parse_body_def eval_defs str_split_nbsp_a [simplified])

lemma process_line_nbsp_b:
  "process_line [((''80'', ''tcp''), ''web'')] (''2 a'' @ [CHR 0xA0] @ ''b c d e 80 f 6 g'') ([], [], [])
     = (None, ([(''Untagged'', 1)], [((''e'', ''unknown''), 1)], []))"
  by (simp add: eval_defs str_split_nbsp_b [simplified])

lemma parse_nbsp_d:
  "parse_flow_logs (Inr [''2 a b c d 80 e '' @ [CHR 0xA0]]) [((''80'', ''tcp''), ''web'')]
     = (Inl IndexError, [Error_log_processing IndexError])"
  by (simp add: parse_flow_logs_def parse_body_def eval_defs str_split_nbsp_d [simplified])

text \<open>Lowercasing of protocol names.\<close>

lemma lower_ex:
  "lower ''tcp'' = ''tcp''" "lower ''TCP'' = ''tcp''" "lower ''Tcp'' = ''tcp''"
  "lower ''protocol'' = ''protocol''"
  "lower [CHR ''T'', CHR ''C'', CHR 0xC9, CHR 0xD7, CHR 0xDF, CHR ''-'', CHR ''6'']
     = [CHR ''t'', CHR ''c'', CHR 0xE9, CHR 0xD7, CHR 0xDF, CHR ''-'', CHR ''6'']"
  by (simp_all add: lower_defs)

lemma parse_ex_nbsp:
  "fst (parse_flow_logs
      (Inr [''2 a b c d 80 e 6 x y'', ''2 a'' @ [CHR 0xA0] @ ''b c d e 80 f 6 g'', ''2 a b c d 80 e 6 x y''])
      [((''80'', ''tcp''), ''web'')])
   = Inr ([(''web'', 2), (''Untagged'', 1)], [((''80'', ''tcp''), 2), ((''e'', ''unknown''), 1)])"
  by (simp add: parse_flow_logs_def parse_body_def eval_defs str_split_ex5
        str_split_nbsp_b [simplified])

lemma parse_lines_ex_nbsp:
  "parse_lines [((''80'', ''tcp''), ''web'')]
      ([''2 a b c d 80 e 6 x y'']
       @ [''2 a'' @ [CHR 0xA0] @ ''b c d e 80 f 6 g'', [CHR 0x09] @ '' 3  x'' @ [CHR 0x0A]])
      ([], [], [])
     = (Some (ValueError (UnsupportedLogVersion ''3'')),
        ([(''web'', 1), (''Untagged'', 1)], [((''80'', ''tcp''), 1), ((''e'', ''unknown''), 1)],
         [Error_unsupported_version ''3'']))"
  by (simp add: eval_defs str_split_ex5 str_split_nbsp_b [simplified]
        str_split_bad_version [simplified])



subsection \<open>The report\<close>

lemma mset_sorted_reverse: "mset (sorted_reverse key xs) = mset xs"
  by (simp add: sorted_reverse_def)

lemma set_sorted_reverse: "set (sorted_reverse key xs) = set xs"
  by (simp add: sorted_reverse_def)

lemma sorted_reverse_descending:
  "sorted_wrt (\<lambda>a b. key b \<le> key a) (sorted_reverse key xs)"
proof -
  have "sorted (map key (sort_key key (rev xs)))" by (rule sorted_sort_key)
  then have "sorted_wrt (\<lambda>a b. key a \<le> key b) (sort_key key (rev xs))"
    by (simp add: sorted_map)
  then show ?thesis by (simp add: sorted_reverse_def sorted_wrt_rev)
qed

lemma sorted_reverse_stable:
  "filter (\<lambda>y. key y = c) (sorted_reverse key xs) = filter (\<lambda>y. key y = c) xs"
proof -
  have "filter (\<lambda>y. key y = c) (sorted_reverse key xs)
          = rev (filter (\<lambda>y. key y = c) (sort_key key (rev xs)))"
    by (simp add: sorted_reverse_def rev_filter)
  also have "\<dots> = rev (filter (\<lambda>y. key y = c) (rev xs))" by (simp only: sort_key_stable)
  also have "\<dots> = filter (\<lambda>y. key y = c) xs" by (simp add: rev_filter)
  finally show ?thesis .
qed

lemma sorted_tags_no_untagged: "(tag, c) \<in> set (sorted_tags tc) \<Longrightarrow> tag \<noteq> ''Untagged''"
  by (auto simp: sorted_tags_def set_sorted_reverse)

lemma tag_block_report:
  "tag_block (report_rows tc ppc) =
     [Str ''Tag'', Str ''Count'']
     # map (\<lambda>(tag, count). [Str tag, Num count]) (sorted_tags tc)
     @ (if untagged_count tc > 0 then [[Str ''Untagged'', Num (untagged_count tc)]] else [])"
proof -
  let ?xs = "[Str ''Tag'', Str ''Count'']
     # map (\<lambda>(tag, count). [Str tag, Num count]) (sorted_tags tc)
     @ (if untagged_count tc > 0 then [[Str ''Untagged'', Num (untagged_count tc)]] else [])"
  let ?ys = "[[Str ''Port/Protocol Combination Counts''],
        [Str ''Port'', Str ''Protocol'', Str ''Count'']]
     @ map (\<lambda>((dstport, protocol), count). [Str dstport, Str protocol, Num count]) ppc"
  have r: "drop 1 (report_rows tc ppc) = ?xs @ [] # ?ys"
    by (simp add: report_rows_def)
  have ne: "\<And>row. row \<in> set ?xs \<Longrightarrow> row \<noteq> []" by auto
  have "takeWhile (\<lambda>row. row \<noteq> []) (?xs @ [] # ?ys) = ?xs @ takeWhile (\<lambda>row. row \<noteq> []) ([] # ?ys)"
    using ne by (rule takeWhile_append2)
  then show ?thesis unfolding tag_block_def r by simp
qed

subsection \<open>The lookup table seen by the parser\<close>








subsection \<open>The loader\<close>

lemma load_rows_3:
  "load_rows tbl ([dstport, protocol, tag] # rows)
     = load_rows (setitem (dstport, lower protocol) tag tbl) rows"
  by simp

lemma load_rows_bad:
  assumes "length bad \<noteq> 3"
  shows "load_rows tbl (bad # post) = (Some (ValueError (UnpackMismatch (length bad))), tbl)"
proof (cases bad)
  case Nil
  then show ?thesis by simp
next
  case c1: (Cons a t1)
  show ?thesis
  proof (cases t1)
    case Nil
    with c1 show ?thesis by simp
  next
    case c2: (Cons b t2)
    show ?thesis
    proof (cases t2)
      case Nil
      with c1 c2 show ?thesis by simp
    next
      case c3: (Cons c t3)
      show ?thesis
      proof (cases t3)
        case Nil
        with c1 c2 c3 assms show ?thesis by simp
      next
        case (Cons d t4)
        with c1 c2 c3 show ?thesis by simp
      qed
    qed
  qed
qed

declare load_rows.simps(2) [simp del]

lemma length_3: "length row = 3 \<Longrightarrow> \<exists>a b c. row = [a, b, c]"
  by (simp add: length_Suc_conv numeral_3_eq_3) (elim exE conjE, simp)

lemma load_rows_wf:
  "\<forall>row\<in>set rows. length row = 3 \<Longrightarrow>
   load_rows tbl rows =
     (None, foldl (\<lambda>t row. setitem (row ! 0, lower (row ! 1)) (row ! 2) t) tbl rows)"
proof (induction rows arbitrary: tbl)
  case Nil
  then show ?case by simp
next
  case (Cons row rows)
  from Cons.prems have "length row = 3" by simp
  then obtain a b c where r: "row = [a, b, c]" using length_3 by blast
  from Cons.prems have "\<forall>row\<in>set rows. length row = 3" by simp
  from Cons.IH [OF this] show ?case by (simp add: r load_rows_3)
qed

lemma load_rows_append_wf:
  "\<forall>row\<in>set pre. length row = 3 \<Longrightarrow>
   load_rows tbl (pre @ rest) =
     load_rows (foldl (\<lambda>t row. setitem (row ! 0, lower (row ! 1)) (row ! 2) t) tbl pre) rest"
proof (induction pre arbitrary: tbl)
  case Nil
  then show ?case by simp
next
  case (Cons row pre)
  from Cons.prems have "length row = 3" by simp
  then obtain a b c where r: "row = [a, b, c]" using length_3 by blast
  from Cons.prems have "\<forall>row\<in>set pre. length row = 3" by simp
  from Cons.IH [OF this] show ?case by (simp add: r load_rows_3)
qed

lemma map_of_setitem: "map_of (setitem k v d) = (map_of d)(k \<mapsto> v)"
  by (simp add: setitem_def update_conv')

lemma map_of_foldl_setitem:
  "map_of (foldl (\<lambda>t row. setitem (f row) (g row) t) tbl rows)
     = map_of tbl ++ map_of (rev (map (\<lambda>row. (f row, g row)) rows))"
proof (induction rows arbitrary: tbl)
  case Nil
  then show ?case by simp
next
  case (Cons r rows)
  let ?M = "map_of (rev (map (\<lambda>row. (f row, g row)) rows))"
  have "map_of (foldl (\<lambda>t row. setitem (f row) (g row) t) tbl (r # rows))
          = map_of (setitem (f r) (g r) tbl) ++ ?M"
    by (simp add: Cons.IH)
  also have "\<dots> = (map_of tbl)(f r \<mapsto> g r) ++ ?M"
    by (simp only: map_of_setitem)
  also have "\<dots> = map_of tbl ++ ([f r \<mapsto> g r] ++ ?M)"
    by (rule ext) (simp add: map_add_def split: option.splits)
  also have "\<dots> = map_of tbl ++ map_of (rev (map (\<lambda>row. (f row, g row)) (r # rows)))"
    by simp
  finally show ?case .
qed

lemma distinct_foldl_setitem:
  "distinct (map fst tbl) \<Longrightarrow>
   distinct (map fst (foldl (\<lambda>t row. setitem (f row) (g row) t) tbl rows))"
proof (induction rows arbitrary: tbl)
  case Nil
  then show ?case by simp
next
  case (Cons r rows)
  from Cons.prems have "distinct (map fst (setitem (f r) (g r) tbl))"
    by (simp add: setitem_def distinct_update)
  from Cons.IH [OF this] show ?case by simp
qed

lemma load_lookup_table_wf:
  assumes "\<forall>row\<in>set rows. length row = 3"
  shows "load_lookup_table (Inr (header # rows)) =
     (Inr (foldl (\<lambda>t row. setitem (row ! 0, lower (row ! 1)) (row ! 2) t) [] rows),
      [Info_lookup_loaded])"
  by (simp add: load_lookup_table_def load_body_def load_rows_wf [OF assms])

lemma load_lookup_table_bad:
  assumes "\<forall>row\<in>set pre. length row = 3" and "length bad \<noteq> 3"
  shows "load_lookup_table (Inr (header # pre @ bad # post)) =
     (Inr (foldl (\<lambda>t row. setitem (row ! 0, lower (row ! 1)) (row ! 2) t) [] pre),
      [Error_lookup_load (ValueError (UnpackMismatch (length bad)))])"
  by (simp add: load_lookup_table_def load_body_def load_rows_append_wf [OF assms(1)]
        load_rows_bad [OF assms(2)])

lemma map_of_rev_last_wins:
  assumes "\<forall>row\<in>set post. fst (F row) \<noteq> fst (F r)"
  shows "map_of (rev (map F (pre @ r # post))) (fst (F r)) = Some (snd (F r))"
proof -
  have "fst (F r) \<notin> fst ` set (rev (map F post))" using assms by auto
  then have n: "map_of (rev (map F post)) (fst (F r)) = None"
    by (rule map_of_eq_None_iff [THEN iffD2])
  have "map_of (rev (map F (pre @ r # post))) (fst (F r))
      = (map_of (rev (map F pre)) ++ (map_of [F r] ++ map_of (rev (map F post)))) (fst (F r))"
    by simp
  also have "\<dots> = Some (snd (F r))"
    using n by (cases "F r") (simp add: map_add_def)
  finally show ?thesis .
qed

subsection \<open>Whitespace, splitting and lowercasing\<close>

text \<open>
  The two character tables, read as code points: \<open>isspace\<close> holds of exactly the
  code points 9 to 13, 28 to 32, 133 and 160, and \<open>lower_char\<close> adds 32 to exactly the
  code points 65 to 90, 192 to 214 and 216 to 222.
\<close>

lemma isspace_code_points:
  "isspace c \<longleftrightarrow>
     (let n = (of_char c :: nat)
      in (9 \<le> n \<and> n \<le> 13) \<or> (28 \<le> n \<and> n \<le> 32) \<or> n = 133 \<or> n = 160)"
proof -
  obtain b0 b1 b2 b3 b4 b5 b6 b7 where c: "c = Char b0 b1 b2 b3 b4 b5 b6 b7" by (cases c)
  show ?thesis unfolding c isspace_def
    by (cases b0; cases b1; cases b2; cases b3; cases b4; cases b5; cases b6; cases b7; simp)
qed

lemma lower_char_code_points:
  "(of_char (lower_char c) :: nat) =
     (let n = (of_char c :: nat)
      in if (65 \<le> n \<and> n \<le> 90) \<or> (192 \<le> n \<and> n \<le> 214) \<or> (216 \<le> n \<and> n \<le> 222)
         then n + 32 else n)"
proof -
  obtain b0 b1 b2 b3 b4 b5 b6 b7 where c: "c = Char b0 b1 b2 b3 b4 b5 b6 b7" by (cases c)
  show ?thesis unfolding c lower_char_def upper_letters_def lower_letters_def
    by (cases b0; cases b1; cases b2; cases b3; cases b4; cases b5; cases b6; cases b7; simp)
qed

text \<open>
  \<open>str_split\<close> is determined by three equations: the empty string has no field, a
  non-empty string without whitespace is one field, and a whitespace character separates
  the fields before it from the fields after it.
\<close>

lemma split_from_no_space:
  "\<forall>c\<in>set s. \<not> isspace c \<Longrightarrow> split_from w s = (if w @ s = [] then [] else [w @ s])"
  by (induction s arbitrary: w) simp_all

lemma split_from_at_space:
  "isspace c \<Longrightarrow> split_from w (a @ c # b) = split_from w a @ split_from [] b"
  by (induction a arbitrary: w) simp_all

lemma str_split_empty: "str_split [] = []"
  by (simp add: str_split_def)

lemma str_split_no_space:
  "s \<noteq> [] \<Longrightarrow> \<forall>c\<in>set s. \<not> isspace c \<Longrightarrow> str_split s = [s]"
  by (simp add: str_split_def split_from_no_space)

lemma str_split_at_space:
  "isspace c \<Longrightarrow> str_split (a @ c # b) = str_split a @ str_split b"
  by (simp add: str_split_def split_from_at_space)

lemma split_from_fields:
  "f \<in> set (split_from w s) \<Longrightarrow> \<forall>c\<in>set w. \<not> isspace c \<Longrightarrow>
     f \<noteq> [] \<and> (\<forall>c\<in>set f. \<not> isspace c)"
proof (induction s arbitrary: w)
  case Nil
  then show ?case by (cases "w = []") simp_all
next
  case (Cons x s)
  show ?case
  proof (cases "isspace x")
    case True
    show ?thesis
    proof (cases "w = []")
      case True
      with \<open>isspace x\<close> Cons.prems have "f \<in> set (split_from [] s)" by simp
      from Cons.IH [OF this] show ?thesis by simp
    next
      case False
      with \<open>isspace x\<close> Cons.prems have "f = w \<or> f \<in> set (split_from [] s)" by simp
      then show ?thesis
      proof
        assume "f = w"
        with False Cons.prems(2) show ?thesis by simp
      next
        assume "f \<in> set (split_from [] s)"
        from Cons.IH [OF this] show ?thesis by simp
      qed
    qed
  next
    case False
    with Cons.prems have m: "f \<in> set (split_from (w @ [x]) s)" by simp
    from False Cons.prems(2) have "\<forall>c\<in>set (w @ [x]). \<not> isspace c" by simp
    from Cons.IH [OF m this] show ?thesis .
  qed
qed

lemma str_split_fields:
  assumes "f \<in> set (str_split s)"
  shows "f \<noteq> [] \<and> (\<forall>c\<in>set f. \<not> isspace c)"
proof -
  from assms have "f \<in> set (split_from [] s)" by (simp only: str_split_def)
  moreover have "\<forall>c\<in>set ([] :: string). \<not> isspace c" by simp
  ultimately show ?thesis by (rule split_from_fields)
qed

subsection \<open>Claims about the parser\<close>

text \<open>
  Claim C1. Whenever some line of the source has a first whitespace-separated field
  other than \<open>"2"\<close>, \<open>parse_flow_logs\<close> raises and returns no aggregates, whatever
  the lookup table and whatever comes before and after that line. When the lines before
  it are accepted lines, the exception is the \<open>ValueError\<close> of the version check,
  carrying the offending version token.
\<close>

theorem version_mismatch_aborts:
  assumes "str_split bad = version # rest" and "version \<noteq> ''2''"
  shows "(\<exists>e. fst (parse_flow_logs (Inr (pre @ bad # post)) lookup) = Inl e) \<and>
         ((\<forall>l\<in>set pre. valid_line l) \<longrightarrow>
            fst (parse_flow_logs (Inr (pre @ bad # post)) lookup)
              = Inl (ValueError (UnsupportedLogVersion version)))"
proof -
  from assms have nv: "\<not> valid_line bad" by (simp add: valid_line_def)
  from assms have le: "line_error bad = ValueError (UnsupportedLogVersion version)"
    by (simp add: line_error_def)
  have "\<exists>l\<in>set (pre @ bad # post). \<not> valid_line l" using nv by auto
  from parse_flow_logs_invalid [OF this] have a: "\<exists>e. fst (parse_flow_logs (Inr (pre @ bad # post)) lookup) = Inl e" .
  show ?thesis using a parse_flow_logs_first_invalid [of pre bad post lookup] nv le by auto
qed

theorem version_mismatch_aborts_witness:
  "fst (parse_flow_logs
      (Inr [''2 123456789012 eni-a1b2 10.0.1.5 198.51.100.7 80 49152 6 10 840 1620140761 1620140821 ACCEPT OK'',
            ''2'' @ [CHR 0xA0] @ ''a b c d 80 e 6 x'',
            [CHR 0x09] @ '' 3  x'' @ [CHR 0x0A],
            ''2 a b'']) [((''80'', ''tcp''), ''web'')])
     = Inl (ValueError (UnsupportedLogVersion ''3''))"
proof -
  let ?pre = "[''2 123456789012 eni-a1b2 10.0.1.5 198.51.100.7 80 49152 6 10 840 1620140761 1620140821 ACCEPT OK'',
               ''2'' @ [CHR 0xA0] @ ''a b c d 80 e 6 x'']"
  have n: "''3'' \<noteq> ''2''" by simp
  have v: "\<forall>l\<in>set ?pre. valid_line l" using valid_line_ex1 valid_line_nbsp_a by simp
  from version_mismatch_aborts [OF str_split_bad_version n, of ?pre "[''2 a b'']"
      "[((''80'', ''tcp''), ''web'')]", THEN conjunct2, THEN mp, OF v]
  show ?thesis by simp
qed

text \<open>
  Claim C8. Whenever some line of the source splits into fewer than 8 fields,
  \<open>parse_flow_logs\<close> raises and returns no aggregates. When the lines before it are
  accepted lines, the exception is the one the loop body raises on that line: the
  \<open>IndexError\<close> of the out-of-range field read if the line is blank or starts with
  \<open>"2"\<close>, the \<open>ValueError\<close> of the version check otherwise. The
  \<open>except Exception\<close> clause logs it and raises it again.
\<close>

theorem short_line_aborts:
  assumes "length (str_split bad) < 8"
  shows "(\<exists>e. fst (parse_flow_logs (Inr (pre @ bad # post)) lookup) = Inl e) \<and>
         ((\<forall>l\<in>set pre. valid_line l) \<longrightarrow>
            fst (parse_flow_logs (Inr (pre @ bad # post)) lookup) = Inl (line_error bad)) \<and>
         (str_split bad = [] \<or> hd (str_split bad) = ''2'' \<longrightarrow> line_error bad = IndexError)"
proof -
  from assms have nv: "\<not> valid_line bad" by (simp add: valid_line_def)
  have "\<exists>l\<in>set (pre @ bad # post). \<not> valid_line l" using nv by auto
  from parse_flow_logs_invalid [OF this] have a: "\<exists>e. fst (parse_flow_logs (Inr (pre @ bad # post)) lookup) = Inl e" .
  have c: "str_split bad = [] \<or> hd (str_split bad) = ''2'' \<longrightarrow> line_error bad = IndexError"
    by (cases "str_split bad") (auto simp: line_error_def)
  show ?thesis using a parse_flow_logs_first_invalid [of pre bad post lookup] nv c by blast
qed

theorem short_line_aborts_witness:
  "length (str_split (''2 a b c d 80 e '' @ [CHR 0xA0])) = 7
   \<and> fst (parse_flow_logs
        (Inr [''2 a b c d 80 e'' @ [CHR 0xA0] @ ''6'',
              ''2 a b c d 80 e '' @ [CHR 0xA0],
              ''2 a b'']) [((''80'', ''tcp''), ''web'')])
       = Inl IndexError
   \<and> length (str_split ('' '' @ [CHR 0x09, CHR 0xA0, CHR 0x0A])) = 0
   \<and> fst (parse_flow_logs
        (Inr ['' '' @ [CHR 0x09, CHR 0xA0, CHR 0x0A],
              ''2 123456789012 eni-a1b2 10.0.1.5 198.51.100.7 80 49152 6 10 840 1620140761 1620140821 ACCEPT OK''])
        [((''80'', ''tcp''), ''web'')])
       = Inl IndexError"
proof -
  let ?c = "''2 a b c d 80 e'' @ [CHR 0xA0] @ ''6''"
  let ?d = "''2 a b c d 80 e '' @ [CHR 0xA0]"
  let ?blank = "'' '' @ [CHR 0x09, CHR 0xA0, CHR 0x0A]"
  let ?ok = "''2 123456789012 eni-a1b2 10.0.1.5 198.51.100.7 80 49152 6 10 840 1620140761 1620140821 ACCEPT OK''"
  let ?L = "[((''80'', ''tcp''), ''web'')]"
  have ld: "length (str_split ?d) = 7" by (simp add: str_split_nbsp_d [simplified])
  have lb: "length (str_split ?blank) = 0" by (simp add: str_split_blank [simplified])
  have sd: "length (str_split ?d) < 8" using ld by simp
  have sb: "length (str_split ?blank) < 8" using lb by simp
  note t1 = short_line_aborts [OF sd, of "[?c]" "[''2 a b'']" ?L]
  note t2 = short_line_aborts [OF sb, of "[]" "[?ok]" ?L]
  have v1: "\<forall>l\<in>set [?c]. valid_line l" using valid_line_nbsp_c by simp
  have v2: "\<forall>l\<in>set ([] :: string list). valid_line l" by simp
  have h1: "str_split ?d = [] \<or> hd (str_split ?d) = ''2''" by (simp add: str_split_nbsp_d [simplified])
  have h2: "str_split ?blank = [] \<or> hd (str_split ?blank) = ''2''" by (simp add: str_split_blank [simplified])
  have e1: "line_error ?d = IndexError"
    by (rule t1 [THEN conjunct2, THEN conjunct2, THEN mp, OF h1])
  have e2: "line_error ?blank = IndexError"
    by (rule t2 [THEN conjunct2, THEN conjunct2, THEN mp, OF h2])
  have r1: "fst (parse_flow_logs (Inr ([?c] @ ?d # [''2 a b''])) ?L) = Inl IndexError"
    using t1 [THEN conjunct2, THEN conjunct1, THEN mp, OF v1] by (simp only: e1)
  have r2: "fst (parse_flow_logs (Inr ([] @ ?blank # [?ok])) ?L) = Inl IndexError"
    using t2 [THEN conjunct2, THEN conjunct1, THEN mp, OF v2] by (simp only: e2)
  from ld r1 lb r2 show ?thesis by simp
qed

text \<open>
  Claim C2. (1) A line that the loop body processes without raising changes the two
  aggregates by one \<open>+= 1\<close> each: the count of the line's tag and the count of its
  (port, protocol) pair go up by exactly 1 and every other count is unchanged.
  (2) When \<open>parse_flow_logs\<close> returns aggregates, every line was accepted, the values of
  each aggregate sum to the number of lines, and the keys of each aggregate are distinct.
  (3) During a pass, the aggregates reached after a prefix of the lines sum to the length
  of that prefix, and no count is smaller later in the pass (also when the pass then
  ends in an exception).
\<close>

theorem parse_counts_invariants:
  "(process_line lookup line (tc, ppc, lg) = (None, (tc', ppc', lg')) \<longrightarrow>
      tc' = incr (record_tag lookup line) tc \<and> ppc' = incr (record_key line) ppc \<and>
      (\<forall>t. dict_get tc' t 0 = dict_get tc t 0 + (if t = record_tag lookup line then 1 else 0)) \<and>
      (\<forall>k. dict_get ppc' k 0 = dict_get ppc k 0 + (if k = record_key line then 1 else 0)))
   \<and> (fst (parse_flow_logs (Inr lines) lookup) = Inr (tcf, ppcf) \<longrightarrow>
        (\<forall>l\<in>set lines. valid_line l) \<and>
        sum_list (map snd tcf) = int (length lines) \<and>
        sum_list (map snd ppcf) = int (length lines) \<and>
        distinct (map fst tcf) \<and> distinct (map fst ppcf))
   \<and> (parse_lines lookup ls1 ([], [], []) = (None, (tc1, ppc1, lg1)) \<and>
      parse_lines lookup (ls1 @ ls2) ([], [], []) = (exc, (tc2, ppc2, lg2)) \<longrightarrow>
        sum_list (map snd tc1) = int (length ls1) \<and>
        sum_list (map snd ppc1) = int (length ls1) \<and>
        (\<forall>t. dict_get tc1 t 0 \<le> dict_get tc2 t 0) \<and>
        (\<forall>k. dict_get ppc1 k 0 \<le> dict_get ppc2 k 0))"
proof (intro conjI impI)
  assume p: "process_line lookup line (tc, ppc, lg) = (None, (tc', ppc', lg'))"
  from process_line_None [OF p]
  show "tc' = incr (record_tag lookup line) tc" and "ppc' = incr (record_key line) ppc"
    by simp_all
  then show "\<forall>t. dict_get tc' t 0 = dict_get tc t 0 + (if t = record_tag lookup line then 1 else 0)"
    and "\<forall>k. dict_get ppc' k 0 = dict_get ppc k 0 + (if k = record_key line then 1 else 0)"
    by (simp_all add: dict_get_incr)
next
  assume r: "fst (parse_flow_logs (Inr lines) lookup) = Inr (tcf, ppcf)"
  from parse_flow_logs_Inr_valid [OF r] show v: "\<forall>l\<in>set lines. valid_line l" .
  from r parse_flow_logs_valid [OF v, of lookup]
  have e: "tcf = foldl (\<lambda>d l. incr (record_tag lookup l) d) [] lines"
          "ppcf = foldl (\<lambda>d l. incr (record_key l) d) [] lines" by simp_all
  show "sum_list (map snd tcf) = int (length lines)" by (simp add: e sum_foldl_incr)
  show "sum_list (map snd ppcf) = int (length lines)" by (simp add: e sum_foldl_incr)
  show "distinct (map fst tcf)" by (simp add: e distinct_foldl_incr)
  show "distinct (map fst ppcf)" by (simp add: e distinct_foldl_incr)
next
  assume a: "parse_lines lookup ls1 ([], [], []) = (None, (tc1, ppc1, lg1)) \<and>
      parse_lines lookup (ls1 @ ls2) ([], [], []) = (exc, (tc2, ppc2, lg2))"
  then have v: "\<forall>l\<in>set ls1. valid_line l" using parse_lines_None_valid by blast
  from a parse_lines_valid [OF v, of lookup "[]" "[]" "[]"]
  have e: "tc1 = foldl (\<lambda>d l. incr (record_tag lookup l) d) [] ls1"
          "ppc1 = foldl (\<lambda>d l. incr (record_key l) d) [] ls1" by simp_all
  show "sum_list (map snd tc1) = int (length ls1)" by (simp add: e sum_foldl_incr)
  show "sum_list (map snd ppc1) = int (length ls1)" by (simp add: e sum_foldl_incr)
  from a have "parse_lines lookup ls2 (tc1, ppc1, lg1) = (exc, (tc2, ppc2, lg2))"
    by (auto simp: parse_lines_append)
  from parse_lines_mono [OF this]
  show "\<forall>t. dict_get tc1 t 0 \<le> dict_get tc2 t 0" and "\<forall>k. dict_get ppc1 k 0 \<le> dict_get ppc2 k 0"
    by simp_all
qed

theorem parse_counts_invariants_witness:
  "process_line [((''80'', ''tcp''), ''web'')] (''2 a'' @ [CHR 0xA0] @ ''b c d e 80 f 6 g'') ([], [], [])
     = (None, ([(''Untagged'', 1)], [((''e'', ''unknown''), 1)], []))
   \<and> (\<forall>t. dict_get [(''Untagged'', 1::int)] t 0 = dict_get [] t 0 +
          (if t = record_tag [((''80'', ''tcp''), ''web'')] (''2 a'' @ [CHR 0xA0] @ ''b c d e 80 f 6 g'')
           then 1 else 0))
   \<and> fst (parse_flow_logs
        (Inr [''2 a b c d 80 e 6 x y'', ''2 a'' @ [CHR 0xA0] @ ''b c d e 80 f 6 g'', ''2 a b c d 80 e 6 x y''])
        [((''80'', ''tcp''), ''web'')])
      = Inr ([(''web'', 2), (''Untagged'', 1)], [((''80'', ''tcp''), 2), ((''e'', ''unknown''), 1)])
   \<and> sum_list (map snd [(''web'', 2::int), (''Untagged'', 1)])
      = int (length [''2 a b c d 80 e 6 x y'', ''2 a'' @ [CHR 0xA0] @ ''b c d e 80 f 6 g'', ''2 a b c d 80 e 6 x y''])
   \<and> sum_list (map snd [((''80'', ''tcp''), 2::int), ((''e'', ''unknown''), 1)])
      = int (length [''2 a b c d 80 e 6 x y'', ''2 a'' @ [CHR 0xA0] @ ''b c d e 80 f 6 g'', ''2 a b c d 80 e 6 x y''])
   \<and> parse_lines [((''80'', ''tcp''), ''web'')] [''2 a b c d 80 e 6 x y''] ([], [], [])
     = (None, ([(''web'', 1)], [((''80'', ''tcp''), 1)], []))
   \<and> parse_lines [((''80'', ''tcp''), ''web'')]
      ([''2 a b c d 80 e 6 x y'']
       @ [''2 a'' @ [CHR 0xA0] @ ''b c d e 80 f 6 g'', [CHR 0x09] @ '' 3  x'' @ [CHR 0x0A]])
      ([], [], [])
     = (Some (ValueError (UnsupportedLogVersion ''3'')),
        ([(''web'', 1), (''Untagged'', 1)], [((''80'', ''tcp''), 1), ((''e'', ''unknown''), 1)],
         [Error_unsupported_version ''3'']))
   \<and> (\<forall>t. dict_get [(''web'', 1::int)] t 0 \<le> dict_get [(''web'', 1), (''Untagged'', 1)] t 0)"
proof -
  note t = parse_counts_invariants
    [where lookup = "[((''80'', ''tcp''), ''web'')]"
       and line = "''2 a'' @ [CHR 0xA0] @ ''b c d e 80 f 6 g''"
       and tc = "[]" and ppc = "[]" and lg = "[]"
       and tc' = "[(''Untagged'', 1)]" and ppc' = "[((''e'', ''unknown''), 1)]" and lg' = "[]"
       and lines = "[''2 a b c d 80 e 6 x y'', ''2 a'' @ [CHR 0xA0] @ ''b c d e 80 f 6 g'', ''2 a b c d 80 e 6 x y'']"
       and tcf = "[(''web'', 2), (''Untagged'', 1)]"
       and ppcf = "[((''80'', ''tcp''), 2), ((''e'', ''unknown''), 1)]"
       and ?ls1.0 = "[''2 a b c d 80 e 6 x y'']"
       and ?ls2.0 = "[''2 a'' @ [CHR 0xA0] @ ''b c d e 80 f 6 g'', [CHR 0x09] @ '' 3  x'' @ [CHR 0x0A]]"
       and ?tc1.0 = "[(''web'', 1)]" and ?ppc1.0 = "[((''80'', ''tcp''), 1)]" and ?lg1.0 = "[]"
       and exc = "Some (ValueError (UnsupportedLogVersion ''3''))"
       and ?tc2.0 = "[(''web'', 1), (''Untagged'', 1)]"
       and ?ppc2.0 = "[((''80'', ''tcp''), 1), ((''e'', ''unknown''), 1)]"
       and ?lg2.0 = "[Error_unsupported_version ''3'']"]
  note c1 = t [THEN conjunct1, THEN mp, OF process_line_nbsp_b]
  note c2 = t [THEN conjunct2, THEN conjunct1, THEN mp, OF parse_ex_nbsp]
  note c3 = t [THEN conjunct2, THEN conjunct2, THEN mp, OF conjI [OF parse_lines_ex1 parse_lines_ex_nbsp]]
  note k1 = c1 [THEN conjunct2, THEN conjunct2, THEN conjunct1]
  note k2 = c2 [THEN conjunct2, THEN conjunct1]
  note k2' = c2 [THEN conjunct2, THEN conjunct2, THEN conjunct1]
  note k3 = c3 [THEN conjunct2, THEN conjunct2, THEN conjunct1]
  show ?thesis
    by (intro conjI)
       (rule process_line_nbsp_b k1 parse_ex_nbsp k2 k2' parse_lines_ex1 parse_lines_ex_nbsp k3)+
qed

text \<open>
  Claim C10. The loop body checks no upper bound on the number of fields. A line with at
  least 8 fields whose first field is \<open>"2"\<close> is counted: the tag found for (field 5,
  resolved field 7) and that pair itself are incremented, and no exception is raised.
  Two accepted lines that agree on fields 5 and 7 have the same effect, whatever their other
  fields and however many fields they have. A source of accepted lines is parsed to the end.
\<close>

theorem no_upper_field_check:
  "(8 \<le> length (str_split line) \<and> str_split line ! 0 = ''2'' \<longrightarrow>
      process_line lookup line (tc, ppc, lg) =
        (None,
         (incr (dict_get lookup (str_split line ! 5, resolve (str_split line ! 7)) ''Untagged'') tc,
          incr (str_split line ! 5, resolve (str_split line ! 7)) ppc,
          lg)))
   \<and> (valid_line l1 \<and> valid_line l2 \<and>
      str_split l1 ! 5 = str_split l2 ! 5 \<and> str_split l1 ! 7 = str_split l2 ! 7 \<longrightarrow>
        process_line lookup l1 (tc, ppc, lg) = process_line lookup l2 (tc, ppc, lg))
   \<and> ((\<forall>l\<in>set lines. valid_line l) \<longrightarrow>
        (\<exists>tcf ppcf. fst (parse_flow_logs (Inr lines) lookup) = Inr (tcf, ppcf) \<and>
           sum_list (map snd tcf) = int (length lines)))"
proof (intro conjI impI)
  assume "8 \<le> length (str_split line) \<and> str_split line ! 0 = ''2''"
  then have "valid_line line" by (simp add: valid_line_def)
  then show "process_line lookup line (tc, ppc, lg) =
        (None,
         (incr (dict_get lookup (str_split line ! 5, resolve (str_split line ! 7)) ''Untagged'') tc,
          incr (str_split line ! 5, resolve (str_split line ! 7)) ppc,
          lg))"
    by (simp add: process_line_valid record_tag_def record_key_def)
next
  assume a: "valid_line l1 \<and> valid_line l2 \<and>
      str_split l1 ! 5 = str_split l2 ! 5 \<and> str_split l1 ! 7 = str_split l2 ! 7"
  then have "record_key l1 = record_key l2" by (simp add: record_key_def)
  with a show "process_line lookup l1 (tc, ppc, lg) = process_line lookup l2 (tc, ppc, lg)"
    by (simp add: process_line_valid record_tag_def)
next
  assume v: "\<forall>l\<in>set lines. valid_line l"
  show "\<exists>tcf ppcf. fst (parse_flow_logs (Inr lines) lookup) = Inr (tcf, ppcf) \<and>
           sum_list (map snd tcf) = int (length lines)"
    by (simp add: parse_flow_logs_valid [OF v] sum_foldl_incr)
qed

theorem no_upper_field_check_witness:
  "length (str_split ''2 - - - - 80 - 6'') = 8
   \<and> length (str_split ([CHR 0x09] @ '' 2  123456789012'' @ [CHR 0x09] @ ''eni-a1b2 '' @ [CHR 0xA0]
       @ ''10.0.1.5'' @ [CHR 0x85] @ ''198.51.100.7'' @ [CHR 0x0B, CHR 0x0C] @ ''80''
       @ [CHR 0x1C] @ ''49152'' @ [CHR 0x1F, CHR 0x1E, CHR 0x1D]
       @ ''6 10 840 1620140761 1620140821 ACCEPT OK extra'' @ [CHR 0x0D, CHR 0x0A])) = 15
   \<and> process_line [((''80'', ''tcp''), ''web'')] ''2 - - - - 80 - 6'' ([], [], [])
       = (None, ([(''web'', 1)], [((''80'', ''tcp''), 1)], []))
   \<and> process_line [((''80'', ''tcp''), ''web'')] ''2 - - - - 80 - 6'' ([], [], [])
       = process_line [((''80'', ''tcp''), ''web'')]
           ([CHR 0x09] @ '' 2  123456789012'' @ [CHR 0x09] @ ''eni-a1b2 '' @ [CHR 0xA0]
       @ ''10.0.1.5'' @ [CHR 0x85] @ ''198.51.100.7'' @ [CHR 0x0B, CHR 0x0C] @ ''80''
       @ [CHR 0x1C] @ ''49152'' @ [CHR 0x1F, CHR 0x1E, CHR 0x1D]
       @ ''6 10 840 1620140761 1620140821 ACCEPT OK extra'' @ [CHR 0x0D, CHR 0x0A])
           ([], [], [])
   \<and> (\<exists>tcf ppcf. fst (parse_flow_logs
         (Inr [''2 - - - - 80 - 6'',
               [CHR 0x09] @ '' 2  123456789012'' @ [CHR 0x09] @ ''eni-a1b2 '' @ [CHR 0xA0]
       @ ''10.0.1.5'' @ [CHR 0x85] @ ''198.51.100.7'' @ [CHR 0x0B, CHR 0x0C] @ ''80''
       @ [CHR 0x1C] @ ''49152'' @ [CHR 0x1F, CHR 0x1E, CHR 0x1D]
       @ ''6 10 840 1620140761 1620140821 ACCEPT OK extra'' @ [CHR 0x0D, CHR 0x0A],
               ''2 a b c d 80 e'' @ [CHR 0xA0] @ ''6''])
         [((''80'', ''tcp''), ''web'')]) = Inr (tcf, ppcf) \<and> sum_list (map snd tcf) = 3)"
proof -
  let ?a = "''2 - - - - 80 - 6''"
  let ?b = "[CHR 0x09] @ '' 2  123456789012'' @ [CHR 0x09] @ ''eni-a1b2 '' @ [CHR 0xA0]
       @ ''10.0.1.5'' @ [CHR 0x85] @ ''198.51.100.7'' @ [CHR 0x0B, CHR 0x0C] @ ''80''
       @ [CHR 0x1C] @ ''49152'' @ [CHR 0x1F, CHR 0x1E, CHR 0x1D]
       @ ''6 10 840 1620140761 1620140821 ACCEPT OK extra'' @ [CHR 0x0D, CHR 0x0A]"
  let ?c = "''2 a b c d 80 e'' @ [CHR 0xA0] @ ''6''"
  let ?L = "[((''80'', ''tcp''), ''web'')]"
  note sb = str_split_all_whitespace [simplified]
  note t = no_upper_field_check [of ?a ?L "[]" "[]" "[]" ?a ?b "[?a, ?b, ?c]"]
  have va: "valid_line ?a" by (simp add: valid_line_def str_split_ex7)
  have vb: "valid_line ?b" by (simp add: valid_line_def sb)
  have h1: "8 \<le> length (str_split ?a) \<and> str_split ?a ! 0 = ''2''"
    by (simp add: str_split_ex7)
  have h2: "valid_line ?a \<and> valid_line ?b \<and>
      str_split ?a ! 5 = str_split ?b ! 5 \<and> str_split ?a ! 7 = str_split ?b ! 7"
    using va vb by (simp add: sb str_split_ex7)
  have h3: "\<forall>l\<in>set [?a, ?b, ?c]. valid_line l" using va vb valid_line_nbsp_c by simp
  from t [THEN conjunct1, THEN mp, OF h1]
  have c1: "process_line ?L ?a ([], [], []) = (None, ([(''web'', 1)], [((''80'', ''tcp''), 1)], []))"
    by (simp add: str_split_ex7 resolve_def protocol_map_def dict_get_def incr_def
          getitem_default_def setitem_def)
  note c2 = t [THEN conjunct2, THEN conjunct1, THEN mp, OF h2]
  from t [THEN conjunct2, THEN conjunct2, THEN mp, OF h3]
  have c3: "\<exists>tcf ppcf. fst (parse_flow_logs (Inr [?a, ?b, ?c]) ?L) = Inr (tcf, ppcf)
      \<and> sum_list (map snd tcf) = 3" by simp
  have la: "length (str_split ?a) = 8" by (simp add: str_split_ex7)
  have lb: "length (str_split ?b) = 15" by (simp add: sb)
  from la lb c1 c2 c3 show ?thesis by (intro conjI)
qed

text \<open>
  Claim C6, as the code has it. When \<open>open\<close> raises \<open>FileNotFoundError\<close>,
  \<open>parse_flow_logs\<close> logs an error and returns normally, with both aggregates empty.
  Any other exception raised by \<open>open\<close> is logged and raised again.
\<close>

theorem missing_log_file_returns_empty:
  "parse_flow_logs (Inl FileNotFoundError) lookup = (Inr ([], []), [Error_log_not_found])
   \<and> (e \<noteq> FileNotFoundError \<longrightarrow>
        parse_flow_logs (Inl e) lookup = (Inl e, [Error_log_processing e]))"
  by (cases e) (simp_all add: parse_flow_logs_def parse_body_def)

theorem missing_log_file_returns_empty_witness:
  "PermissionError \<noteq> FileNotFoundError
   \<and> parse_flow_logs (Inl PermissionError) [((''80'', ''tcp''), ''web'')]
       = (Inl PermissionError, [Error_log_processing PermissionError])"
  using missing_log_file_returns_empty [of "[((''80'', ''tcp''), ''web'')]" PermissionError]
  by simp

text \<open>
  The claim as stated (a missing source makes \<open>parse_flow_logs\<close> fail) does not hold:
  on a missing source the result is a normal return of two empty aggregates.
\<close>

theorem missing_log_file_not_an_error:
  "fst (parse_flow_logs (Inl FileNotFoundError) [((''80'', ''tcp''), ''web'')]) = Inr ([], [])"
  by (simp add: parse_flow_logs_def parse_body_def)

subsection \<open>Claims about the report\<close>

text \<open>
  Claim C3. On a writable sink \<open>save_results\<close> writes \<open>report_rows\<close>. Its tag block is
  the header \<open>["Tag", "Count"]\<close>, then one row per tag other than \<open>"Untagged"\<close>, then
  the \<open>"Untagged"\<close> row if its count is positive. The rows of the other tags are sorted by
  count, descending; they are the items of the aggregate other than \<open>"Untagged"\<close>, each
  once; items of equal count keep the order of the aggregate; none of them has the tag
  \<open>"Untagged"\<close>. So when the \<open>"Untagged"\<close> count is positive its row is the last row of
  the block, whatever the other counts, and when the count is 0 (or the tag is absent) the
  block has no \<open>"Untagged"\<close> row.
\<close>

theorem tag_block_sorted_untagged_last:
  "fst (save_results tc ppc (Inr u)) = Some (report_rows tc ppc)
   \<and> tag_block (report_rows tc ppc) =
       [Str ''Tag'', Str ''Count'']
       # map (\<lambda>(tag, c). [Str tag, Num c]) (sorted_tags tc)
       @ (if 0 < untagged_count tc then [[Str ''Untagged'', Num (untagged_count tc)]] else [])
   \<and> sorted_wrt (\<lambda>a b. snd b \<le> snd a) (sorted_tags tc)
   \<and> mset (sorted_tags tc) = mset (filter (\<lambda>(tag, c). tag \<noteq> ''Untagged'') tc)
   \<and> (\<forall>n. filter (\<lambda>item. snd item = n) (sorted_tags tc)
           = filter (\<lambda>item. snd item = n) (filter (\<lambda>(tag, c). tag \<noteq> ''Untagged'') tc))
   \<and> (\<forall>row\<in>set (map (\<lambda>(tag, c). [Str tag, Num c]) (sorted_tags tc)). hd row \<noteq> Str ''Untagged'')
   \<and> (0 < untagged_count tc \<longrightarrow>
        last (tag_block (report_rows tc ppc)) = [Str ''Untagged'', Num (untagged_count tc)])
   \<and> (untagged_count tc \<le> 0 \<longrightarrow>
        (\<forall>row\<in>set (tag_block (report_rows tc ppc)). hd row \<noteq> Str ''Untagged''))"
proof (intro conjI)
  show "fst (save_results tc ppc (Inr u)) = Some (report_rows tc ppc)"
    by (simp add: save_results_def)
  show "tag_block (report_rows tc ppc) =
       [Str ''Tag'', Str ''Count'']
       # map (\<lambda>(tag, c). [Str tag, Num c]) (sorted_tags tc)
       @ (if 0 < untagged_count tc then [[Str ''Untagged'', Num (untagged_count tc)]] else [])"
    by (rule tag_block_report)
  show "sorted_wrt (\<lambda>a b. snd b \<le> snd a) (sorted_tags tc)"
    unfolding sorted_tags_def by (rule sorted_reverse_descending)
  show "mset (sorted_tags tc) = mset (filter (\<lambda>(tag, c). tag \<noteq> ''Untagged'') tc)"
    unfolding sorted_tags_def by (rule mset_sorted_reverse)
  show "\<forall>n. filter (\<lambda>item. snd item = n) (sorted_tags tc)
           = filter (\<lambda>item. snd item = n) (filter (\<lambda>(tag, c). tag \<noteq> ''Untagged'') tc)"
    unfolding sorted_tags_def by (intro allI) (rule sorted_reverse_stable)
  show body: "\<forall>row\<in>set (map (\<lambda>(tag, c). [Str tag, Num c]) (sorted_tags tc)). hd row \<noteq> Str ''Untagged''"
    using sorted_tags_no_untagged by auto
  show "0 < untagged_count tc \<longrightarrow>
        last (tag_block (report_rows tc ppc)) = [Str ''Untagged'', Num (untagged_count tc)]"
    by (simp add: tag_block_report)
  show "untagged_count tc \<le> 0 \<longrightarrow>
        (\<forall>row\<in>set (tag_block (report_rows tc ppc)). hd row \<noteq> Str ''Untagged'')"
    using body by (simp add: tag_block_report)
qed

theorem tag_block_sorted_untagged_last_witness:
  "tag_block (report_rows [(''Untagged'', 7), (''ssh'', 3), (''web'', 5), (''x'', 3)] [((''80'', ''tcp''), 18)])
     = [[Str ''Tag'', Str ''Count''], [Str ''web'', Num 5], [Str ''ssh'', Num 3], [Str ''x'', Num 3],
        [Str ''Untagged'', Num 7]]
   \<and> 0 < untagged_count [(''Untagged'', 7), (''ssh'', 3), (''web'', 5), (''x'', 3)]
   \<and> last (tag_block (report_rows [(''Untagged'', 7), (''ssh'', 3), (''web'', 5), (''x'', 3)] [((''80'', ''tcp''), 18)]))
     = [Str ''Untagged'', Num 7]
   \<and> untagged_count [(''ssh'', 3), (''Untagged'', 0), (''web'', 5)] \<le> 0
   \<and> tag_block (report_rows [(''ssh'', 3), (''Untagged'', 0), (''web'', 5)] [])
     = [[Str ''Tag'', Str ''Count''], [Str ''web'', Num 5], [Str ''ssh'', Num 3]]"
  using tag_block_sorted_untagged_last
      [of "[(''Untagged'', 7), (''ssh'', 3), (''web'', 5), (''x'', 3)]" "[((''80'', ''tcp''), 18)]" "()"]
    tag_block_sorted_untagged_last [of "[(''ssh'', 3), (''Untagged'', 0), (''web'', 5)]" "[]" "()"]
  by (simp add: sorted_tags_ex1 sorted_tags_ex2 untagged_count_ex1 untagged_count_ex2)



subsection \<open>Claims about the resolver and the loader\<close>

text \<open>
  Claim C4. The resolver is a function of the protocol code alone, read off the fixed table:
  each of the eleven codes of the table resolves to its lowercase name
  (\<open>resolve "6" = "tcp"\<close>, \<open>resolve "17" = "udp"\<close>, and so on), and every other code
  (such as \<open>"999"\<close>) resolves to the literal \<open>"unknown"\<close>. It is total: no code raises.
\<close>

theorem resolve_table:
  "resolve ''1'' = ''icmp'' \<and> resolve ''2'' = ''igmp'' \<and> resolve ''6'' = ''tcp''
   \<and> resolve ''17'' = ''udp'' \<and> resolve ''41'' = ''ipv6-encapsulation''
   \<and> resolve ''47'' = ''gre'' \<and> resolve ''50'' = ''esp'' \<and> resolve ''51'' = ''ah''
   \<and> resolve ''58'' = ''icmpv6'' \<and> resolve ''89'' = ''ospf'' \<and> resolve ''132'' = ''sctp''
   \<and> resolve ''999'' = ''unknown''
   \<and> (code \<notin> {''1'', ''2'', ''6'', ''17'', ''41'', ''47'', ''50'', ''51'', ''58'', ''89'', ''132''}
        \<longrightarrow> resolve code = ''unknown'')"
proof -
  have known:
    "resolve ''1'' = ''icmp''" "resolve ''2'' = ''igmp''" "resolve ''6'' = ''tcp''"
    "resolve ''17'' = ''udp''" "resolve ''41'' = ''ipv6-encapsulation''"
    "resolve ''47'' = ''gre''" "resolve ''50'' = ''esp''" "resolve ''51'' = ''ah''"
    "resolve ''58'' = ''icmpv6''" "resolve ''89'' = ''ospf''" "resolve ''132'' = ''sctp''"
    "resolve ''999'' = ''unknown''"
    by (simp_all add: resolve_def dict_get_def protocol_map_def)
  have other: "resolve code = ''unknown''"
    if "code \<notin> {''1'', ''2'', ''6'', ''17'', ''41'', ''47'', ''50'', ''51'', ''58'', ''89'', ''132''}"
  proof -
    from that have "code \<notin> fst ` set protocol_map" by (simp add: protocol_map_def)
    then have "map_of protocol_map code = None" by (rule map_of_eq_None_iff [THEN iffD2])
    then show ?thesis by (simp add: resolve_def dict_get_def)
  qed
  from known other show ?thesis by blast
qed

theorem resolve_table_witness:
  "''06'' \<notin> {''1'', ''2'', ''6'', ''17'', ''41'', ''47'', ''50'', ''51'', ''58'', ''89'', ''132''}
   \<and> resolve ''06'' = ''unknown''
   \<and> resolve ''1'' = ''icmp'' \<and> resolve ''89'' = ''ospf'' \<and> resolve ''132'' = ''sctp''"
proof -
  have a: "''06'' \<notin> {''1'', ''2'', ''6'', ''17'', ''41'', ''47'', ''50'', ''51'', ''58'', ''89'', ''132''}"
    by simp
  note t = resolve_table [of "''06''"]
  have b: "resolve ''06'' = ''unknown''"
    using t a by (elim conjE) (rule mp)
  have c: "resolve ''1'' = ''icmp''" using t by (elim conjE)
  have d: "resolve ''89'' = ''ospf''" using t by (elim conjE)
  have e: "resolve ''132'' = ''sctp''" using t by (elim conjE)
  from a b c d e show ?thesis by (intro conjI)
qed

text \<open>
  Claim C5. On a source whose data rows all have three fields, \<open>load_lookup_table\<close>
  skips the first row and returns a table with distinct keys in which a key
  (port, lowercased protocol) is mapped to the tag of the last row with that key, and a
  key of no row is absent. Loading the header and the row \<open>(80, tcp, web)\<close> gives a table
  where \<open>(80, tcp)\<close> is \<open>web\<close> and \<open>(81, tcp)\<close> is a miss. The protocol is stored in
  lowercase: after the row \<open>(80, TCP, web)\<close> the key \<open>(80, tcp)\<close> is \<open>web\<close> and the key
  \<open>(80, TCP)\<close> is a miss, and a later row \<open>(80, Tcp, www)\<close> overwrites the same key.
\<close>

theorem load_round_trip:
  "((\<forall>row\<in>set rows. length row = 3) \<longrightarrow>
      (\<exists>tbl. load_lookup_table (Inr (header # rows)) = (Inr tbl, [Info_lookup_loaded])
         \<and> distinct (map fst tbl)
         \<and> (\<forall>key. map_of tbl key
               = map_of (rev (map (\<lambda>row. ((row ! 0, lower (row ! 1)), row ! 2)) rows)) key)
         \<and> (\<forall>pre port proto tag post.
               rows = pre @ [port, proto, tag] # post \<and>
               (\<forall>row\<in>set post. (row ! 0, lower (row ! 1)) \<noteq> (port, lower proto))
               \<longrightarrow> map_of tbl (port, lower proto) = Some tag)
         \<and> (\<forall>key. key \<notin> (\<lambda>row. (row ! 0, lower (row ! 1))) ` set rows
               \<longrightarrow> map_of tbl key = None)))
   \<and> (\<exists>tbl. fst (load_lookup_table
          (Inr [[''destination_port'', ''protocol'', ''tag''], [''80'', ''tcp'', ''web'']])) = Inr tbl
        \<and> map_of tbl (''80'', ''tcp'') = Some ''web''
        \<and> map_of tbl (''81'', ''tcp'') = None)
   \<and> (\<exists>tbl. fst (load_lookup_table
          (Inr [[''destination_port'', ''protocol'', ''tag''], [''80'', ''TCP'', ''web'']])) = Inr tbl
        \<and> map_of tbl (''80'', ''tcp'') = Some ''web''
        \<and> map_of tbl (''80'', ''TCP'') = None)
   \<and> fst (load_lookup_table
          (Inr [[''destination_port'', ''protocol'', ''tag''],
                [''80'', ''TCP'', ''web''], [''443'', ''tcp'', ''ssl''], [''80'', ''Tcp'', ''www'']]))
       = Inr [((''80'', ''tcp''), ''www''), ((''443'', ''tcp''), ''ssl'')]"
proof (intro conjI impI)
  assume wf: "\<forall>row\<in>set rows. length row = 3"
  let ?F = "\<lambda>row. ((row ! 0, lower (row ! 1)), row ! 2)"
  let ?tbl = "foldl (\<lambda>t row. setitem (row ! 0, lower (row ! 1)) (row ! 2) t) [] rows"
  have m: "map_of ?tbl key = map_of (rev (map ?F rows)) key" for key
    by (simp add: map_of_foldl_setitem)
  have l: "load_lookup_table (Inr (header # rows)) = (Inr ?tbl, [Info_lookup_loaded])"
    by (rule load_lookup_table_wf [OF wf])
  have d: "distinct (map fst ?tbl)" by (rule distinct_foldl_setitem) simp
  have w: "map_of ?tbl (port, lower proto) = Some tag"
    if "rows = pre @ [port, proto, tag] # post \<and>
        (\<forall>row\<in>set post. (row ! 0, lower (row ! 1)) \<noteq> (port, lower proto))"
    for pre port proto tag post
  proof -
    from that have p: "\<forall>row\<in>set post. fst (?F row) \<noteq> fst (?F [port, proto, tag])" by simp
    from that have r: "rows = pre @ [port, proto, tag] # post" by simp
    have "map_of ?tbl (port, lower proto) = map_of (rev (map ?F rows)) (port, lower proto)"
      by (rule m)
    also have "\<dots> = map_of (rev (map ?F (pre @ [port, proto, tag] # post))) (fst (?F [port, proto, tag]))"
      by (simp add: r)
    also have "\<dots> = Some (snd (?F [port, proto, tag]))"
      using p by (rule map_of_rev_last_wins)
    also have "\<dots> = Some tag" by simp
    finally show ?thesis .
  qed
  have n: "map_of ?tbl key = None" if "key \<notin> (\<lambda>row. (row ! 0, lower (row ! 1))) ` set rows" for key
  proof -
    from that have "key \<notin> fst ` set (rev (map ?F rows))" by (auto simp: image_iff)
    then have "map_of (rev (map ?F rows)) key = None"
      by (rule map_of_eq_None_iff [THEN iffD2])
    then show ?thesis by (simp only: m)
  qed
  show "\<exists>tbl. load_lookup_table (Inr (header # rows)) = (Inr tbl, [Info_lookup_loaded])
         \<and> distinct (map fst tbl)
         \<and> (\<forall>key. map_of tbl key = map_of (rev (map ?F rows)) key)
         \<and> (\<forall>pre port proto tag post.
               rows = pre @ [port, proto, tag] # post \<and>
               (\<forall>row\<in>set post. (row ! 0, lower (row ! 1)) \<noteq> (port, lower proto))
               \<longrightarrow> map_of tbl (port, lower proto) = Some tag)
         \<and> (\<forall>key. key \<notin> (\<lambda>row. (row ! 0, lower (row ! 1))) ` set rows
               \<longrightarrow> map_of tbl key = None)"
    using l d m w n by blast
next
  have "load_lookup_table (Inr [[''destination_port'', ''protocol'', ''tag''], [''80'', ''tcp'', ''web'']])
      = (Inr [((''80'', ''tcp''), ''web'')], [Info_lookup_loaded])"
    by (simp add: load_lookup_table_def load_body_def load_rows_3 setitem_def lower_defs)
  then show "\<exists>tbl. fst (load_lookup_table
          (Inr [[''destination_port'', ''protocol'', ''tag''], [''80'', ''tcp'', ''web'']])) = Inr tbl
        \<and> map_of tbl (''80'', ''tcp'') = Some ''web''
        \<and> map_of tbl (''81'', ''tcp'') = None"
    by simp
next
  have "load_lookup_table (Inr [[''destination_port'', ''protocol'', ''tag''], [''80'', ''TCP'', ''web'']])
      = (Inr [((''80'', ''tcp''), ''web'')], [Info_lookup_loaded])"
    by (simp add: load_lookup_table_def load_body_def load_rows_3 setitem_def lower_ex)
  then show "\<exists>tbl. fst (load_lookup_table
          (Inr [[''destination_port'', ''protocol'', ''tag''], [''80'', ''TCP'', ''web'']])) = Inr tbl
        \<and> map_of tbl (''80'', ''tcp'') = Some ''web''
        \<and> map_of tbl (''80'', ''TCP'') = None"
    by simp
next
  show "fst (load_lookup_table
          (Inr [[''destination_port'', ''protocol'', ''tag''],
                [''80'', ''TCP'', ''web''], [''443'', ''tcp'', ''ssl''], [''80'', ''Tcp'', ''www'']]))
       = Inr [((''80'', ''tcp''), ''www''), ((''443'', ''tcp''), ''ssl'')]"
    by (simp add: load_lookup_table_def load_body_def load_rows_3 setitem_def lower_ex)
qed

theorem load_round_trip_witness:
  "\<exists>tbl. load_lookup_table
         (Inr [[''destination_port'', ''protocol'', ''tag''],
               [''80'', ''TCP'', ''web''], [''443'', ''tcp'', ''ssl''],
               [''22'', [CHR ''T'', CHR ''C'', CHR 0xC9, CHR 0xD7, CHR 0xDF, CHR ''-'', CHR ''6''], ''x''],
               [''80'', ''Tcp'', ''www'']])
        = (Inr tbl, [Info_lookup_loaded])
      \<and> map_of tbl (''80'', ''tcp'') = Some ''www''
      \<and> map_of tbl (''443'', ''tcp'') = Some ''ssl''
      \<and> map_of tbl (''22'', [CHR ''t'', CHR ''c'', CHR 0xE9, CHR 0xD7, CHR 0xDF, CHR ''-'', CHR ''6''])
          = Some ''x''
      \<and> map_of tbl (''80'', ''TCP'') = None
      \<and> map_of tbl (''81'', ''tcp'') = None"
proof -
  let ?h = "[''destination_port'', ''protocol'', ''tag'']"
  let ?e = "[CHR ''T'', CHR ''C'', CHR 0xC9, CHR 0xD7, CHR 0xDF, CHR ''-'', CHR ''6'']"
  let ?r1 = "[''80'', ''TCP'', ''web'']"
  let ?r2 = "[''443'', ''tcp'', ''ssl'']"
  let ?r3 = "[''22'', ?e, ''x'']"
  let ?r4 = "[''80'', ''Tcp'', ''www'']"
  let ?rows = "[?r1, ?r2, ?r3, ?r4]"
  have wf: "\<forall>row\<in>set ?rows. length row = 3" by simp
  from load_round_trip [of ?rows ?h, THEN conjunct1, THEN mp, OF wf]
  obtain tbl where l: "load_lookup_table (Inr (?h # ?rows)) = (Inr tbl, [Info_lookup_loaded])"
    and w: "\<forall>pre port proto tag post.
               ?rows = pre @ [port, proto, tag] # post \<and>
               (\<forall>row\<in>set post. (row ! 0, lower (row ! 1)) \<noteq> (port, lower proto))
               \<longrightarrow> map_of tbl (port, lower proto) = Some tag"
    and n: "\<forall>key. key \<notin> (\<lambda>row. (row ! 0, lower (row ! 1))) ` set ?rows
               \<longrightarrow> map_of tbl key = None"
    by blast
  have "?rows = [?r1, ?r2, ?r3] @ [''80'', ''Tcp'', ''www''] # []
        \<and> (\<forall>row\<in>set []. (row ! 0, lower (row ! 1)) \<noteq> (''80'', lower ''Tcp''))" by simp
  with w have "map_of tbl (''80'', lower ''Tcp'') = Some ''www''" by blast
  then have a: "map_of tbl (''80'', ''tcp'') = Some ''www''" by (simp only: lower_ex)
  have "?rows = [?r1] @ [''443'', ''tcp'', ''ssl''] # [?r3, ?r4]
        \<and> (\<forall>row\<in>set [?r3, ?r4]. (row ! 0, lower (row ! 1)) \<noteq> (''443'', lower ''tcp''))" by simp
  with w have "map_of tbl (''443'', lower ''tcp'') = Some ''ssl''" by blast
  then have b: "map_of tbl (''443'', ''tcp'') = Some ''ssl''" by (simp only: lower_ex)
  have "?rows = [?r1, ?r2] @ [''22'', ?e, ''x''] # [?r4]
        \<and> (\<forall>row\<in>set [?r4]. (row ! 0, lower (row ! 1)) \<noteq> (''22'', lower ?e))" by simp
  with w have "map_of tbl (''22'', lower ?e) = Some ''x''" by blast
  then have c: "map_of tbl (''22'', [CHR ''t'', CHR ''c'', CHR 0xE9, CHR 0xD7, CHR 0xDF, CHR ''-'', CHR ''6''])
      = Some ''x''" by (simp only: lower_ex)
  have "(''80'', ''TCP'') \<notin> (\<lambda>row. (row ! 0, lower (row ! 1))) ` set ?rows"
    by (simp add: lower_ex)
  with n have d: "map_of tbl (''80'', ''TCP'') = None" by blast
  have "(''81'', ''tcp'') \<notin> (\<lambda>row. (row ! 0, lower (row ! 1))) ` set ?rows" by simp
  with n have e: "map_of tbl (''81'', ''tcp'') = None" by blast
  from l a b c d e show ?thesis by blast
qed

text \<open>
  Claim C7, as the code has it. \<open>load_lookup_table\<close> never fails: every exception is
  caught, logged, and the table built so far is returned. When the first data row that
  does not have exactly three fields comes after well-formed rows, the result is the table
  of those rows, and the log holds the \<open>ValueError\<close> of the unpacking.
\<close>

theorem load_swallows_bad_row:
  "(\<exists>tbl. fst (load_lookup_table src) = Inr tbl)
   \<and> ((\<forall>row\<in>set pre. length row = 3) \<and> length bad \<noteq> 3 \<longrightarrow>
        load_lookup_table (Inr (header # pre @ bad # post))
          = (fst (load_lookup_table (Inr (header # pre))),
             [Error_lookup_load (ValueError (UnpackMismatch (length bad)))]))"
proof (intro conjI impI)
  obtain exc tbl lg where b: "load_body src = (exc, tbl, lg)" by (cases "load_body src") auto
  show "\<exists>tbl. fst (load_lookup_table src) = Inr tbl"
  proof (cases exc)
    case None
    with b show ?thesis by (simp add: load_lookup_table_def)
  next
    case (Some e)
    with b show ?thesis by (cases e) (simp_all add: load_lookup_table_def)
  qed
next
  assume a: "(\<forall>row\<in>set pre. length row = 3) \<and> length bad \<noteq> 3"
  then have wf: "\<forall>row\<in>set pre. length row = 3" and nb: "length bad \<noteq> 3" by simp_all
  show "load_lookup_table (Inr (header # pre @ bad # post))
          = (fst (load_lookup_table (Inr (header # pre))),
             [Error_lookup_load (ValueError (UnpackMismatch (length bad)))])"
    by (simp add: load_lookup_table_bad [OF wf nb] load_lookup_table_wf [OF wf])
qed

theorem load_swallows_bad_row_witness:
  "load_lookup_table
     (Inr ([''destination_port'', ''protocol'', ''tag'']
           # [[''80'', ''tcp'', ''web'']] @ [''81'', ''tcp''] # [[''82'', ''tcp'', ''x'']]))
   = (Inr [((''80'', ''tcp''), ''web'')], [Error_lookup_load (ValueError (UnpackMismatch 2))])"
proof -
  have h: "(\<forall>row\<in>set [[''80'', ''tcp'', ''web'']]. length row = 3) \<and> length [''81'', ''tcp''] \<noteq> 3"
    by simp
  have e: "load_lookup_table (Inr [[''destination_port'', ''protocol'', ''tag''], [''80'', ''tcp'', ''web'']])
      = (Inr [((''80'', ''tcp''), ''web'')], [Info_lookup_loaded])"
    by (simp add: load_lookup_table_def load_body_def load_rows_3 setitem_def lower_defs)
  from load_swallows_bad_row [of "Inr []" "[[''80'', ''tcp'', ''web'']]" "[''81'', ''tcp'']"
      "[''destination_port'', ''protocol'', ''tag'']" "[[''82'', ''tcp'', ''x'']]",
      THEN conjunct2, THEN mp, OF h]
  show ?thesis by (simp add: e)
qed

text \<open>
  The claim as stated (a row of fewer than 3 fields makes the loader fail) does not hold:
  with a two-field row after a good row, the loader returns the table of the good row.
\<close>

theorem short_row_not_an_error:
  "fst (load_lookup_table
     (Inr [[''destination_port'', ''protocol'', ''tag''],
           [''80'', ''tcp'', ''web''], [''81'', ''tcp''], [''82'', ''tcp'', ''x'']]))
   = Inr [((''80'', ''tcp''), ''web'')]"
  by (simp add: load_lookup_table_def load_body_def load_rows_3 load_rows_bad setitem_def
        lower_defs)

end
